theory Spec2Isabelle
  imports Main "HOL-Library.Char_ord" "HOL-Library.Extended_Nat"
begin

section \<open>Broker (cmd/server/main.go): data model\<close>

text \<open>
  Go strings are byte sequences; they are modelled as \<open>string\<close> (a list of 8-bit
  characters). A \<open>*url.URL\<close> is a nullable pointer: \<open>None\<close> is the nil pointer,
  \<open>Some u\<close> a parsed URL. Of the fields of \<open>url.URL\<close> only \<open>Scheme\<close> and \<open>Host\<close> are
  kept; \<open>Host\<close> is the only field the broker reads itself (\<open>target.Host\<close>).
\<close>

record URL =
  Scheme :: string
  Host :: string

text \<open>
  The package-level variable \<open>tunnels = make(map[string]*url.URL)\<close>: a map from
  subdomain to a nullable URL pointer. \<open>tunnels s = None\<close> means that the key is absent,
  \<open>tunnels s = Some None\<close> that the key is present and bound to the nil pointer.
\<close>

type_synonym registry = "string \<rightharpoonup> URL option"

text \<open>
  \<open>url.Parse\<close> belongs to Go's standard library, not to the repository. It is a parameter
  of the model, of this type: \<open>None\<close> is the result \<open>(nil, err)\<close>, \<open>Some u\<close> the result
  \<open>(u, nil)\<close>. Every call site of the broker discards the error (\<open>targetURL, _ := ...\<close>).
\<close>

type_synonym url_parser = "string \<Rightarrow> URL option"

record RegistrationRequest =
  Subdomain :: string
  TargetPort :: string
  APIKey :: string

subsection \<open>isValidSubdomain\<close>

text \<open>
  \<open>strings.IndexFunc(s, f)\<close>: the index of the first character satisfying \<open>f\<close>, or
  \<open>-1\<close>. Go decodes \<open>s\<close> as UTF-8 and applies \<open>f\<close> to runes; every rune that is not a
  single ASCII byte starts with a byte \<open>\<ge> 0x80\<close>, which lies outside each of the ranges
  tested by the caller below, so testing byte by byte finds the same index.
\<close>

fun IndexFunc_from :: "int \<Rightarrow> string \<Rightarrow> (char \<Rightarrow> bool) \<Rightarrow> int" where
  "IndexFunc_from i [] f = -1"
| "IndexFunc_from i (r # rs) f = (if f r then i else IndexFunc_from (i + 1) rs f)"

definition IndexFunc :: "string \<Rightarrow> (char \<Rightarrow> bool) \<Rightarrow> int" where
  "IndexFunc s f = IndexFunc_from 0 s f"

definition isValidSubdomain :: "string \<Rightarrow> bool" where
  "isValidSubdomain subdomain \<longleftrightarrow>
     length subdomain > 0 \<and>
     IndexFunc subdomain
       (\<lambda>r. \<not> (r \<ge> CHR ''a'' \<and> r \<le> CHR ''z'' \<or> r \<ge> CHR ''0'' \<and> r \<le> CHR ''9'' \<or> r = CHR ''-''))
     = -1"

subsection \<open>What a handler does\<close>

text \<open>
  A handler is modelled by the sequence of calls it makes on the response writer, the
  network and the registry's values, in program order. A panic ends the sequence of the
  handler's own statements; deferred calls still run after it.
\<close>

datatype panic = NilPointer | IndexOutOfRange

datatype action =
    HttpError string nat
      \<comment> \<open>\<open>http.Error(w, msg, code)\<close>\<close>
  | WriteJSON nat "(string \<times> string) list"
      \<comment> \<open>\<open>w.WriteHeader(code)\<close>, then \<open>json.NewEncoder(w).Encode(m)\<close>\<close>
  | Upgrade "nat option"
      \<comment> \<open>\<open>upgrader.Upgrade(w, r, nil)\<close>: \<open>None\<close> when it returned a connection (the
          handshake reply 101 is sent and the connection is taken over), \<open>Some c\<close> when it
          failed after replying with status \<open>c\<close>\<close>
  | Dial string bool
      \<comment> \<open>\<open>net.Dial("tcp", addr)\<close> and whether it returned a connection\<close>
  | ServeProxy URL
      \<comment> \<open>\<open>httputil.NewSingleHostReverseProxy(target).ServeHTTP(w, r)\<close>\<close>
  | Relay
      \<comment> \<open>the two copy loops of \<open>handleTunnel\<close>, modelled separately below\<close>
  | CloseWs
      \<comment> \<open>deferred \<open>conn.Close()\<close>\<close>
  | CloseLocal
      \<comment> \<open>deferred \<open>localConn.Close()\<close>\<close>
  | Panic panic

text \<open>
  The status line that reaches the HTTP client. Once \<open>Upgrade\<close> has taken the connection
  over, the response writer is detached from it: a later \<open>http.Error\<close> on \<open>w\<close> writes
  nothing to the client. A panic before any write aborts the connection without a reply.
  The status of a proxied exchange is the target's and is not modelled.
\<close>

fun reply :: "action list \<Rightarrow> nat option" where
  "reply [] = None"
| "reply (HttpError msg code # as) = Some code"
| "reply (WriteJSON code m # as) = Some code"
| "reply (Upgrade None # as) = Some 101"
| "reply (Upgrade (Some code) # as) = Some code"
| "reply (a # as) = None"

subsection \<open>main: the registry at start-up\<close>

text \<open>\<open>tunnels["test"], _ = url.Parse("http://localhost:80")\<close>\<close>

definition main_tunnels :: "url_parser \<Rightarrow> registry" where
  "main_tunnels url_Parse = Map.empty(''test'' \<mapsto> url_Parse ''http://localhost:80'')"

subsection \<open>handleRegister\<close>

text \<open>
  The request body after \<open>json.NewDecoder(r.Body).Decode(&req)\<close>: \<open>None\<close> when decoding
  failed, otherwise the decoded struct (absent fields are empty strings).
\<close>

definition handleRegister ::
  "url_parser \<Rightarrow> registry \<Rightarrow> RegistrationRequest option \<Rightarrow> action list \<times> registry" where
  "handleRegister url_Parse tunnels body =
     (case body of
        None \<Rightarrow> ([HttpError ''Invalid request'' 400], tunnels)
      | Some req \<Rightarrow>
          if APIKey req \<noteq> ''test123'' then ([HttpError ''Unauthorized'' 401], tunnels)
          else if \<not> isValidSubdomain (Subdomain req) then
            ([HttpError ''Invalid subdomain'' 400], tunnels)
          else
            (case tunnels (Subdomain req) of
               Some existing \<Rightarrow> ([HttpError ''Subdomain already registered'' 409], tunnels)
             | None \<Rightarrow>
                 let targetURL = url_Parse (''http://localhost:'' @ TargetPort req);
                     tunnels' = tunnels(Subdomain req \<mapsto> targetURL)
                 in (case targetURL of
                       None \<Rightarrow> ([Panic NilPointer], tunnels')
                         \<comment> \<open>\<open>targetURL.String()\<close> on the nil pointer, in the log call\<close>
                     | Some u \<Rightarrow>
                         ([WriteJSON 201 [(''status'', ''Registered Successfully'')]],
                          tunnels'))))"

subsection \<open>handleHTTP\<close>

text \<open>
  \<open>strings.Split(s, sep)\<close>. With an empty separator Go splits after each UTF-8 sequence
  (here: after each byte); otherwise at every non-overlapping occurrence of \<open>sep\<close>, from
  the left. \<open>Split_from sep cur s\<close> scans \<open>s\<close> with \<open>cur\<close> the piece collected so far.
\<close>

function Split_from :: "string \<Rightarrow> string \<Rightarrow> string \<Rightarrow> string list" where
  "Split_from sep cur s =
     (if s = [] then [cur]
      else if sep \<noteq> [] \<and> take (length sep) s = sep then
        cur # Split_from sep [] (drop (length sep) s)
      else Split_from sep (cur @ [hd s]) (tl s))"
  by pat_completeness auto
termination
  by (relation "measure (\<lambda>(sep, cur, s). length s)") auto

definition Split :: "string \<Rightarrow> string \<Rightarrow> string list" where
  "Split s sep = (if sep = [] then map (\<lambda>c. [c]) s else Split_from sep [] s)"

text \<open>\<open>host := strings.Split(r.Host, ".")[0]\<close>; indexing an empty slice would panic.\<close>

definition handleHTTP :: "registry \<Rightarrow> string \<Rightarrow> action list" where
  "handleHTTP tunnels r_Host =
     (case Split r_Host ''.'' of
        [] \<Rightarrow> [Panic IndexOutOfRange]
      | host # rest \<Rightarrow>
          (case tunnels host of
             None \<Rightarrow> [HttpError ''Tunnel not found'' 404]
           | Some None \<Rightarrow> [Panic NilPointer]
               \<comment> \<open>the reverse proxy reads the fields of the nil target\<close>
           | Some (Some target) \<Rightarrow> [ServeProxy target]))"

subsection \<open>handleTunnel, up to the start of the relay\<close>

text \<open>
  Inputs: the headers \<open>X-API-Key\<close> and \<open>X-Subdomain\<close> (\<open>Header.Get\<close> gives the empty
  string for an absent header), the outcome of \<open>upgrader.Upgrade\<close> (\<open>None\<close>: upgraded;
  \<open>Some c\<close>: refused with status \<open>c\<close>) and whether \<open>net.Dial\<close> succeeds. The read
  deadline and the pong handler installed before the loops are not actions of their
  own; an expired deadline shows in the relay loops as a failing \<open>ReadMessage\<close>.
\<close>

definition handleTunnel ::
  "registry \<Rightarrow> string \<Rightarrow> string \<Rightarrow> nat option \<Rightarrow> bool \<Rightarrow> action list" where
  "handleTunnel tunnels apiKey subdomain upgrade dial =
     (if apiKey \<noteq> ''test123'' then [HttpError ''Unauthorized'' 401]
      else
        (case upgrade of
           Some code \<Rightarrow> [Upgrade (Some code)]
         | None \<Rightarrow>
             Upgrade None #
             (case tunnels subdomain of
                None \<Rightarrow> [HttpError ''Tunnel not registered'' 404, CloseWs]
              | Some None \<Rightarrow> [Panic NilPointer, CloseWs]
                  \<comment> \<open>\<open>target.Host\<close> on the nil pointer\<close>
              | Some (Some target) \<Rightarrow>
                  if \<not> dial then
                    [Dial (Host target) False,
                     HttpError ''Target service unavailable'' 502, CloseWs]
                  else [Dial (Host target) True, Relay, CloseLocal, CloseWs])))"

subsection \<open>The router and the broker's runs\<close>

text \<open>
  The three routes of \<open>main\<close>: \<open>POST /register\<close>, \<open>GET /tunnel\<close> and the catch-all
  prefix \<open>/\<close>. Handlers run concurrently, but every access to \<open>tunnels\<close> happens under
  \<open>tunnelsMu\<close>, and only \<open>handleRegister\<close> writes, in one critical section; a run of the
  broker is therefore modelled by the sequence of requests in the order of their
  critical sections.
\<close>

datatype request =
    PostRegister "RegistrationRequest option"
  | GetTunnel string string "nat option" bool
  | AnyOther string

fun serve :: "url_parser \<Rightarrow> registry \<Rightarrow> request \<Rightarrow> action list \<times> registry" where
  "serve url_Parse tunnels (PostRegister body) = handleRegister url_Parse tunnels body"
| "serve url_Parse tunnels (GetTunnel apiKey subdomain upgrade dial) =
     (handleTunnel tunnels apiKey subdomain upgrade dial, tunnels)"
| "serve url_Parse tunnels (AnyOther r_Host) = (handleHTTP tunnels r_Host, tunnels)"

definition broker_run :: "url_parser \<Rightarrow> request list \<Rightarrow> registry" where
  "broker_run url_Parse reqs =
     foldl (\<lambda>tunnels r. snd (serve url_Parse tunnels r)) (main_tunnels url_Parse) reqs"

subsection \<open>Provenance of a registry entry\<close>

text \<open>
  \<open>creates url_Parse tunnels r s u\<close>: served in the registry \<open>tunnels\<close>, the request \<open>r\<close> is
  a \<open>POST /register\<close> for the subdomain \<open>s\<close>, which has no entry yet; it is answered
  with 201 and the registration reply, and afterwards \<open>s\<close> is bound to the parsed
  target \<open>u\<close>.
\<close>

definition creates :: "url_parser \<Rightarrow> registry \<Rightarrow> request \<Rightarrow> string \<Rightarrow> URL \<Rightarrow> bool" where
  "creates url_Parse tunnels r s u \<longleftrightarrow>
     (case r of PostRegister (Some req) \<Rightarrow> Subdomain req = s | _ \<Rightarrow> False) \<and>
     tunnels s = None \<and>
     fst (serve url_Parse tunnels r) = [WriteJSON 201 [(''status'', ''Registered Successfully'')]] \<and>
     snd (serve url_Parse tunnels r) s = Some (Some u)"

text \<open>
  Some request of the sequence, served in the registry that the requests before it have
  left, creates the entry; \<open>created_in_run\<close> starts from the registry of \<open>main\<close>.
\<close>

fun created_from :: "url_parser \<Rightarrow> registry \<Rightarrow> request list \<Rightarrow> string \<Rightarrow> URL \<Rightarrow> bool" where
  "created_from url_Parse tunnels [] s u = False"
| "created_from url_Parse tunnels (r # reqs) s u =
     (creates url_Parse tunnels r s u \<or>
      created_from url_Parse (snd (serve url_Parse tunnels r)) reqs s u)"

definition created_in_run :: "url_parser \<Rightarrow> request list \<Rightarrow> string \<Rightarrow> URL \<Rightarrow> bool" where
  "created_in_run url_Parse reqs s u = created_from url_Parse (main_tunnels url_Parse) reqs s u"

subsection \<open>An instance of the parser for closed examples\<close>

text \<open>
  On the texts \<open>http://localhost:p\<close> with \<open>p\<close> made of ASCII letters and digits this
  function returns what \<open>url.Parse\<close> returns: a URL with scheme \<open>http\<close> and host
  \<open>localhost:p\<close> when \<open>p\<close> consists of decimal digits, and the error result
  (\<open>invalid port\<close>) when \<open>p\<close> contains a letter. No example below applies it to any
  other text; there it returns the error result.
\<close>

definition localhost_Parse :: url_parser where
  "localhost_Parse rawURL =
     (if take 17 rawURL = ''http://localhost:'' \<and>
         list_all (\<lambda>c. CHR ''0'' \<le> c \<and> c \<le> CHR ''9'') (drop 17 rawURL)
      then Some \<lparr>Scheme = ''http'', Host = drop 7 rawURL\<rparr> else None)"

section \<open>The relay loops\<close>

text \<open>
  A TCP connection, seen from its reader: the data still to arrive, in the pieces in
  which successive \<open>Read\<close> calls find it; when nothing is left the peer has closed and
  \<open>Read\<close> returns an error (\<open>io.EOF\<close>). \<open>Read n c\<close> is \<open>c.Read(buf)\<close> with
  \<open>len(buf) = n\<close>: it returns the bytes \<open>buf[:n']\<close> it has filled in, at most \<open>n\<close> of them,
  and leaves the rest of a longer piece for the next call.
\<close>

type_synonym byte = char

type_synonym stream = "byte list list"

fun Read :: "nat \<Rightarrow> stream \<Rightarrow> byte list option \<times> stream" where
  "Read n [] = (None, [])"
| "Read n (seg # rest) =
     (if length seg \<le> n then (Some seg, rest) else (Some (take n seg), drop n seg # rest))"

text \<open>
  A connection, seen from its writer: what has been written so far, one element per
  \<open>Write\<close> or \<open>WriteMessage\<close> call, and the number of further calls that succeed
  (\<open>\<infinity>\<close>: the peer never goes away). A failed call writes nothing.
\<close>

type_synonym 'a writer = "'a list \<times> enat"

fun put :: "'a \<Rightarrow> 'a writer \<Rightarrow> 'a writer option" where
  "put x (out, k) = (if k = 0 then None else Some (out @ [x], k - 1))"

text \<open>Why a copy loop returned.\<close>

datatype stop = Cancelled | LocalReadError | WsWriteError | WsReadError | LocalWriteError

subsection \<open>Broker side (handleTunnel)\<close>

text \<open>
  \<open>Local \<rightarrow> WebSocket\<close>: \<open>buf := make([]byte, 1024)\<close>, then forever
  \<open>n, err := localConn.Read(buf)\<close> and \<open>conn.WriteMessage(BinaryMessage, buf[:n])\<close>,
  returning on the first error.
\<close>

function handleTunnel_local_to_ws ::
  "stream \<Rightarrow> byte list writer \<Rightarrow> stop \<times> stream \<times> byte list writer" where
  "handleTunnel_local_to_ws localConn conn =
     (case Read 1024 localConn of
        (None, localConn') \<Rightarrow> (LocalReadError, localConn', conn)
      | (Some chunk, localConn') \<Rightarrow>
          (case put chunk conn of
             None \<Rightarrow> (WsWriteError, localConn', conn)
           | Some conn' \<Rightarrow> handleTunnel_local_to_ws localConn' conn'))"
  by pat_completeness auto
termination
  apply (relation "measure (\<lambda>(localConn, conn).
                     sum_list (map length localConn) + length localConn)")
   apply simp
  subgoal for localConn conn x localConn' chunk conn'
    apply (cases localConn)
     apply (auto split: if_splits)
    done
  done

text \<open>
  \<open>WebSocket \<rightarrow> Local\<close>: forever \<open>conn.ReadMessage()\<close> and \<open>localConn.Write(msg)\<close>. The
  first argument lists the messages that arrive on the channel before \<open>ReadMessage\<close>
  returns an error: the peer has closed the channel, or the read deadline of 60 seconds
  that \<open>handleTunnel\<close> sets before the loops has expired.
\<close>

fun handleTunnel_ws_to_local ::
  "byte list list \<Rightarrow> byte list writer \<Rightarrow> stop \<times> byte list list \<times> byte list writer" where
  "handleTunnel_ws_to_local [] localConn = (WsReadError, [], localConn)"
| "handleTunnel_ws_to_local (msg # conn) localConn =
     (case put msg localConn of
        None \<Rightarrow> (LocalWriteError, conn, localConn)
      | Some localConn' \<Rightarrow> handleTunnel_ws_to_local conn localConn')"

subsection \<open>Agent side (forwardTraffic)\<close>

text \<open>
  The agent's loops are the same, with \<open>select { case <-ctx.Done(): return; default: ... }\<close>
  around each iteration. \<open>ctx\<close> is the number of iterations that begin before the context
  is cancelled (\<open>\<infinity>\<close>: it never is).
\<close>

function forwardTraffic_local_to_ws ::
  "enat \<Rightarrow> stream \<Rightarrow> byte list writer \<Rightarrow> stop \<times> stream \<times> byte list writer" where
  "forwardTraffic_local_to_ws ctx localConn wsConn =
     (if ctx = 0 then (Cancelled, localConn, wsConn)
      else
        (case Read 1024 localConn of
           (None, localConn') \<Rightarrow> (LocalReadError, localConn', wsConn)
         | (Some chunk, localConn') \<Rightarrow>
             (case put chunk wsConn of
                None \<Rightarrow> (WsWriteError, localConn', wsConn)
              | Some wsConn' \<Rightarrow> forwardTraffic_local_to_ws (ctx - 1) localConn' wsConn')))"
  by pat_completeness auto
termination
  apply (relation "measure (\<lambda>(ctx, localConn, wsConn).
                     sum_list (map length localConn) + length localConn)")
   apply simp
  subgoal for ctx localConn wsConn x localConn' chunk wsConn'
    apply (cases localConn)
     apply (auto split: if_splits)
    done
  done

fun forwardTraffic_ws_to_local ::
  "enat \<Rightarrow> byte list list \<Rightarrow> byte list writer \<Rightarrow> stop \<times> byte list list \<times> byte list writer" where
  "forwardTraffic_ws_to_local ctx [] localConn =
     (if ctx = 0 then (Cancelled, [], localConn) else (WsReadError, [], localConn))"
| "forwardTraffic_ws_to_local ctx (msg # wsConn) localConn =
     (if ctx = 0 then (Cancelled, msg # wsConn, localConn)
      else
        (case put msg localConn of
           None \<Rightarrow> (LocalWriteError, wsConn, localConn)
         | Some localConn' \<Rightarrow> forwardTraffic_ws_to_local (ctx - 1) wsConn localConn'))"

section \<open>Agent (cmd/agent/main.go)\<close>

subsection \<open>increaseDelay\<close>

text \<open>
  \<open>time.Duration\<close> is an \<open>int64\<close> count of nanoseconds; multiplication wraps around.
\<close>

definition wrap64 :: "int \<Rightarrow> int" where
  "wrap64 x = (x + 2 ^ 63) mod 2 ^ 64 - 2 ^ 63"

definition Second :: int where
  "Second = 1000000000"

definition increaseDelay :: "int \<Rightarrow> int \<Rightarrow> int" where
  "increaseDelay currentDelay mx =
     (let next = wrap64 (currentDelay * 2) in if next > mx then mx else next)"

subsection \<open>The agent as a state machine\<close>

text \<open>\<open>%d\<close> of \<open>fmt.Sprintf\<close> on a non-negative integer.\<close>

function Itoa :: "nat \<Rightarrow> string" where
  "Itoa n = (if n < 10 then [char_of (48 + n)] else Itoa (n div 10) @ [char_of (48 + n mod 10)])"
  by pat_completeness auto
termination
  by (relation "measure id") auto

text \<open>
  The control points of the agent:
  \<^item> \<open>Registering subdomain\<close>: at the top of the registration loop of \<open>main\<close>;
  \<^item> \<open>Connecting subdomain retryDelay\<close>: at the \<open>select\<close> of the connect loop;
  \<^item> \<open>Active subdomain retryDelay listening\<close>: the control channel is open, \<open>main\<close> waits
    for \<open>connectionCtx.Done()\<close> and \<open>handleConnection\<close> runs; \<open>listening\<close> tells whether
    \<open>net.Listen\<close> has returned;
  \<^item> \<open>Exited\<close>: \<open>log.Fatal\<close>/\<open>log.Fatalf\<close> has ended the process;
  \<^item> \<open>Killed\<close>: an interrupt arrived before \<open>signal.NotifyContext\<close> was installed;
  \<^item> \<open>Returned\<close>: \<open>main\<close> returned after \<open>ctx.Done()\<close>.
\<close>

datatype agent_state =
    Registering string
  | Connecting string int
  | Active string int bool
  | Exited
  | Killed
  | Returned

text \<open>
  What the environment answers at those points. \<open>PostReplies code n\<close> is a response to
  the registration request with status \<open>code\<close>; \<open>n\<close> is the value \<open>rand.Intn(1000)\<close>
  yields if it is called.
\<close>

datatype agent_event =
    MarshalFails
  | PostFails
  | PostReplies nat nat
  | Interrupt
  | DialFails
  | DialSucceeds
  | ListenFails
  | ListenSucceeds
  | AcceptFails
  | Accepted
  | RelayFails

text \<open>
  One step of the agent; \<open>subdomainFlag\<close> is the value of the \<open>-subdomain\<close> flag. An event
  that cannot occur at a control point leaves the state as it is, and so do the events
  the code only logs (a failed \<open>Accept\<close>, an error inside \<open>forwardTraffic\<close>).
\<close>

fun agent_step :: "string \<Rightarrow> agent_state \<Rightarrow> agent_event \<Rightarrow> agent_state" where
  "agent_step subdomainFlag (Registering subdomain) MarshalFails = Exited"
| "agent_step subdomainFlag (Registering subdomain) PostFails = Registering subdomain"
| "agent_step subdomainFlag (Registering subdomain) (PostReplies StatusCode n) =
     (if StatusCode = 201 then Connecting subdomain (2 * Second)
      else if StatusCode = 409 then Registering (subdomainFlag @ ''-'' @ Itoa n)
      else Exited)"
| "agent_step subdomainFlag (Registering subdomain) Interrupt = Killed"
| "agent_step subdomainFlag (Connecting subdomain retryDelay) Interrupt = Returned"
| "agent_step subdomainFlag (Connecting subdomain retryDelay) DialFails =
     Connecting subdomain (increaseDelay retryDelay (60 * Second))"
| "agent_step subdomainFlag (Connecting subdomain retryDelay) DialSucceeds =
     Active subdomain (2 * Second) False"
| "agent_step subdomainFlag (Active subdomain retryDelay listening) Interrupt = Returned"
| "agent_step subdomainFlag (Active subdomain retryDelay False) ListenFails = Exited"
| "agent_step subdomainFlag (Active subdomain retryDelay False) ListenSucceeds =
     Active subdomain retryDelay True"
| "agent_step subdomainFlag s e = s"

definition agent_run :: "string \<Rightarrow> agent_state \<Rightarrow> agent_event list \<Rightarrow> agent_state" where
  "agent_run subdomainFlag s es = foldl (agent_step subdomainFlag) s es"

text \<open>The variable \<open>retryDelay\<close> of \<open>main\<close>, where it is in scope.\<close>

fun retryDelay_of :: "agent_state \<Rightarrow> int" where
  "retryDelay_of (Connecting subdomain retryDelay) = retryDelay"
| "retryDelay_of (Active subdomain retryDelay listening) = retryDelay"
| "retryDelay_of s = 0"

section \<open>Properties of the broker\<close>

subsection \<open>Subdomain validation\<close>

lemma IndexFunc_from_none:
  "0 \<le> i \<Longrightarrow> IndexFunc_from i s f = -1 \<longleftrightarrow> (\<forall>r \<in> set s. \<not> f r)"
proof (induction s arbitrary: i)
  case Nil
  then show ?case by simp
next
  case (Cons r rs)
  show ?case
  proof (cases "f r")
    case True
    then show ?thesis using Cons.prems by simp
  next
    case False
    then show ?thesis using Cons.IH [of "i + 1"] Cons.prems by simp
  qed
qed

lemma isValidSubdomain_iff:
  "isValidSubdomain s \<longleftrightarrow>
     s \<noteq> [] \<and>
     (\<forall>r \<in> set s. CHR ''a'' \<le> r \<and> r \<le> CHR ''z'' \<or> CHR ''0'' \<le> r \<and> r \<le> CHR ''9'' \<or> r = CHR ''-'')"
  unfolding isValidSubdomain_def IndexFunc_def
  by (simp add: IndexFunc_from_none)

lemma test_valid: "isValidSubdomain ''test''"
  by (simp add: isValidSubdomain_def IndexFunc_def less_eq_char_def)

lemma demo_valid: "isValidSubdomain ''demo''"
  by (simp add: isValidSubdomain_def IndexFunc_def less_eq_char_def)

lemma colon_invalid: "CHR '':'' \<in> set s \<Longrightarrow> \<not> isValidSubdomain s"
proof
  assume c: "CHR '':'' \<in> set s" and v: "isValidSubdomain s"
  from v c have "CHR ''a'' \<le> CHR '':'' \<and> CHR '':'' \<le> CHR ''z'' \<or>
      CHR ''0'' \<le> CHR '':'' \<and> CHR '':'' \<le> CHR ''9'' \<or> CHR '':'' = CHR ''-''"
    unfolding isValidSubdomain_iff by blast
  then show False by (simp add: less_eq_char_def)
qed

text \<open>
  Claim C9. The validator accepts a string exactly when it is non-empty and each of its
  characters is a lowercase letter \<open>a..z\<close>, a digit \<open>0..9\<close> or a hyphen. It accepts
  \<open>my-app1\<close> and rejects the empty string, \<open>My-App\<close>, \<open>my_app\<close> and \<open>a b\<close>.
\<close>

theorem isValidSubdomain_spec:
  "(isValidSubdomain s \<longleftrightarrow>
      s \<noteq> [] \<and>
      (\<forall>r \<in> set s. CHR ''a'' \<le> r \<and> r \<le> CHR ''z'' \<or> CHR ''0'' \<le> r \<and> r \<le> CHR ''9'' \<or> r = CHR ''-''))
   \<and> isValidSubdomain ''my-app1''
   \<and> \<not> isValidSubdomain ''''
   \<and> \<not> isValidSubdomain ''My-App''
   \<and> \<not> isValidSubdomain ''my_app''
   \<and> \<not> isValidSubdomain ''a b''"
proof -
  have ex: "isValidSubdomain ''my-app1''" "\<not> isValidSubdomain ''''"
    "\<not> isValidSubdomain ''My-App''" "\<not> isValidSubdomain ''my_app''"
    "\<not> isValidSubdomain ''a b''"
    by (simp_all add: isValidSubdomain_def IndexFunc_def less_eq_char_def)
  show ?thesis using ex isValidSubdomain_iff [of s] by blast
qed

theorem isValidSubdomain_spec_witness:
  "isValidSubdomain ''demo-7'' \<and> ''demo-7'' \<noteq> [] \<and>
   list_all (\<lambda>r. CHR ''a'' \<le> r \<and> r \<le> CHR ''z'' \<or> CHR ''0'' \<le> r \<and> r \<le> CHR ''9'' \<or> r = CHR ''-'')
     ''demo-7''"
proof -
  have v: "isValidSubdomain ''demo-7''"
    by (simp add: isValidSubdomain_def IndexFunc_def less_eq_char_def)
  from isValidSubdomain_spec [of "''demo-7''"] v show ?thesis
    unfolding list_all_iff by blast
qed

subsection \<open>The example parser\<close>

lemma localhost_Parse_80:
  "localhost_Parse ''http://localhost:80'' = Some \<lparr>Scheme = ''http'', Host = ''localhost:80''\<rparr>"
  by (simp add: localhost_Parse_def less_eq_char_def)

lemma localhost_Parse_3000:
  "localhost_Parse ''http://localhost:3000'' =
     Some \<lparr>Scheme = ''http'', Host = ''localhost:3000''\<rparr>"
  by (simp add: localhost_Parse_def less_eq_char_def)

lemma localhost_Parse_abc: "localhost_Parse ''http://localhost:abc'' = None"
  by (simp add: localhost_Parse_def less_eq_char_def)

subsection \<open>The routing key of handleHTTP\<close>

lemma Split_from_single:
  "Split_from [c] cur s = (cur @ takeWhile (\<lambda>x. x \<noteq> c) s) #
     (case dropWhile (\<lambda>x. x \<noteq> c) s of [] \<Rightarrow> [] | d # rest \<Rightarrow> Split_from [c] [] rest)"
proof (induction s arbitrary: cur)
  case Nil
  show ?case by simp
next
  case (Cons x xs)
  show ?case
  proof (cases "x = c")
    case True
    then show ?thesis by (subst Split_from.simps) simp
  next
    case False
    then show ?thesis using Cons.IH [of "cur @ [x]"] by (subst Split_from.simps) simp
  qed
qed

lemma Split_dot_first:
  "\<exists>rest. Split r_Host ''.'' = takeWhile (\<lambda>x. x \<noteq> CHR ''.'') r_Host # rest"
  unfolding Split_def using Split_from_single [of "CHR ''.''" "[]" r_Host] by simp

lemma handleHTTP_key:
  "handleHTTP tunnels r_Host =
     (case tunnels (takeWhile (\<lambda>x. x \<noteq> CHR ''.'') r_Host) of
        None \<Rightarrow> [HttpError ''Tunnel not found'' 404]
      | Some None \<Rightarrow> [Panic NilPointer]
      | Some (Some target) \<Rightarrow> [ServeProxy target])"
proof -
  obtain rest where "Split r_Host ''.'' = takeWhile (\<lambda>x. x \<noteq> CHR ''.'') r_Host # rest"
    using Split_dot_first by blast
  then show ?thesis by (simp add: handleHTTP_def)
qed

lemma takeWhile_label:
  "c \<notin> set s \<Longrightarrow> takeWhile (\<lambda>x. x \<noteq> c) (s @ c # d) = s"
  by (induction s) auto

subsection \<open>Invariants of the registry\<close>

lemma broker_run_Nil: "broker_run url_Parse [] = main_tunnels url_Parse"
  by (simp add: broker_run_def)

lemma broker_run_snoc:
  "broker_run url_Parse (reqs @ [r]) = snd (serve url_Parse (broker_run url_Parse reqs) r)"
  by (simp add: broker_run_def)

lemma serve_keys_valid:
  assumes "\<forall>s. tunnels s \<noteq> None \<longrightarrow> isValidSubdomain s"
  shows "\<forall>s. snd (serve url_Parse tunnels r) s \<noteq> None \<longrightarrow> isValidSubdomain s"
proof (cases r)
  case (PostRegister body)
  then show ?thesis using assms
    by (auto simp: handleRegister_def Let_def split: option.splits if_splits)
next
  case (GetTunnel apiKey subdomain upgrade dial)
  then show ?thesis using assms by simp
next
  case (AnyOther r_Host)
  then show ?thesis using assms by simp
qed

lemma broker_run_keys_valid:
  "broker_run url_Parse reqs s \<noteq> None \<Longrightarrow> isValidSubdomain s"
proof (induction reqs arbitrary: s rule: rev_induct)
  case Nil
  then show ?case using test_valid by (simp add: broker_run_Nil main_tunnels_def split: if_splits)
next
  case (snoc r reqs)
  have "\<forall>s. broker_run url_Parse reqs s \<noteq> None \<longrightarrow> isValidSubdomain s"
    using snoc.IH by blast
  from serve_keys_valid [OF this, of url_Parse r] snoc.prems show ?case
    by (simp add: broker_run_snoc)
qed

lemma serve_keeps_entry:
  "tunnels s = Some t \<Longrightarrow> snd (serve url_Parse tunnels r) s = Some t"
  by (cases r) (auto simp: handleRegister_def Let_def split: option.splits)

lemma serve_creates:
  assumes "tunnels s = None" "snd (serve url_Parse tunnels r) s = Some (Some u)"
  shows "creates url_Parse tunnels r s u"
proof (cases r)
  case (PostRegister body)
  then show ?thesis using assms
    by (auto simp: handleRegister_def creates_def Let_def split: option.splits if_splits)
next
  case (GetTunnel apiKey subdomain upgrade dial)
  then show ?thesis using assms by simp
next
  case (AnyOther r_Host)
  then show ?thesis using assms by simp
qed

lemma broker_run_append_keeps:
  "broker_run url_Parse reqs s = Some t \<Longrightarrow> broker_run url_Parse (reqs @ later) s = Some t"
proof (induction later rule: rev_induct)
  case Nil
  then show ?case by simp
next
  case (snoc r later)
  then have "broker_run url_Parse (reqs @ later) s = Some t" by simp
  then have "snd (serve url_Parse (broker_run url_Parse (reqs @ later)) r) s = Some t"
    by (rule serve_keeps_entry)
  then show ?case using broker_run_snoc [of url_Parse "reqs @ later" r] by simp
qed

lemma foldl_serve_origin:
  "foldl (\<lambda>tunnels r. snd (serve url_Parse tunnels r)) tunnels reqs s = Some (Some u) \<Longrightarrow>
     tunnels s = Some (Some u) \<or> created_from url_Parse tunnels reqs s u"
proof (induction reqs arbitrary: tunnels)
  case Nil
  then show ?case by simp
next
  case (Cons r reqs)
  let ?next = "snd (serve url_Parse tunnels r)"
  from Cons.prems have "foldl (\<lambda>tunnels r. snd (serve url_Parse tunnels r)) ?next reqs s = Some (Some u)"
    by simp
  from Cons.IH [OF this]
  consider (now) "?next s = Some (Some u)" | (later) "created_from url_Parse ?next reqs s u"
    by blast
  then show ?case
  proof cases
    case now
    show ?thesis
    proof (cases "tunnels s")
      case None
      then have "creates url_Parse tunnels r s u" using now by (rule serve_creates)
      then show ?thesis by simp
    next
      case (Some t)
      then have "?next s = Some t" by (rule serve_keeps_entry)
      with now Some show ?thesis by simp
    qed
  next
    case later
    then show ?thesis by simp
  qed
qed

lemma broker_run_created:
  assumes "broker_run url_Parse reqs s = Some (Some u)"
  shows "s = ''test'' \<and> Some u = url_Parse ''http://localhost:80'' \<or> created_in_run url_Parse reqs s u"
proof -
  from assms foldl_serve_origin [of url_Parse "main_tunnels url_Parse" reqs s u]
  have "main_tunnels url_Parse s = Some (Some u) \<or> created_in_run url_Parse reqs s u"
    by (simp add: broker_run_def created_in_run_def)
  then show ?thesis by (auto simp: main_tunnels_def split: if_splits)
qed

subsection \<open>Registration\<close>

text \<open>
  Where \<open>url.Parse\<close> accepts the text built from the port, a credentialed registration of
  a well-formed, absent subdomain is answered with 201 and the new entry is what the
  dispatcher and the handshake find afterwards.
\<close>

lemma handleRegister_created:
  assumes "APIKey req = ''test123''" "isValidSubdomain (Subdomain req)"
    "tunnels (Subdomain req) = None"
    "url_Parse (''http://localhost:'' @ TargetPort req) = Some u"
  shows "handleRegister url_Parse tunnels (Some req) =
           ([WriteJSON 201 [(''status'', ''Registered Successfully'')]],
            tunnels(Subdomain req \<mapsto> Some u))"
  using assms by (simp add: handleRegister_def)

text \<open>
  Claim C1, at the input where it fails. On a fresh broker, the request
  \<open>{subdomain: demo, target_port: abc, api_key: test123}\<close> has the right credential and a
  well-formed, absent subdomain. \<open>url.Parse\<close> rejects \<open>http://localhost:abc\<close> (the port is
  not numeric); the handler has discarded that error, so it stores the nil pointer under
  \<open>demo\<close> and panics on \<open>targetURL.String()\<close> before any status is written: the client
  gets no 201, and a later public request for \<open>demo\<close> finds the nil target and panics too.
\<close>

theorem handleRegister_nil_target:
  "url_Parse ''http://localhost:abc'' = None \<Longrightarrow>
   handleRegister url_Parse (main_tunnels url_Parse)
       (Some \<lparr>Subdomain = ''demo'', TargetPort = ''abc'', APIKey = ''test123''\<rparr>)
     = ([Panic NilPointer], (main_tunnels url_Parse)(''demo'' \<mapsto> None))
   \<and> reply [Panic NilPointer] = None
   \<and> handleHTTP ((main_tunnels url_Parse)(''demo'' \<mapsto> None)) ''demo.exposelocal.dev''
       = [Panic NilPointer]"
  using demo_valid by (simp add: handleRegister_def main_tunnels_def handleHTTP_key)

theorem handleRegister_nil_target_witness:
  "localhost_Parse ''http://localhost:abc'' = None \<and>
   handleRegister localhost_Parse (main_tunnels localhost_Parse)
       (Some \<lparr>Subdomain = ''demo'', TargetPort = ''abc'', APIKey = ''test123''\<rparr>)
     = ([Panic NilPointer], (main_tunnels localhost_Parse)(''demo'' \<mapsto> None))"
  using handleRegister_nil_target [of localhost_Parse] localhost_Parse_abc by simp

text \<open>
  Claim C2. In every state the broker can reach, a credentialed registration request for
  a subdomain that is already present is answered with 409 Conflict and leaves the
  registry as it was; the subdomain keeps the target it had.
\<close>

theorem register_conflict:
  assumes "broker_run url_Parse reqs (Subdomain req) = Some t" "APIKey req = ''test123''"
  shows "handleRegister url_Parse (broker_run url_Parse reqs) (Some req) =
           ([HttpError ''Subdomain already registered'' 409], broker_run url_Parse reqs)
         \<and> reply (fst (handleRegister url_Parse (broker_run url_Parse reqs) (Some req))) = Some 409
         \<and> snd (handleRegister url_Parse (broker_run url_Parse reqs) (Some req)) (Subdomain req)
             = Some t"
proof -
  have "isValidSubdomain (Subdomain req)"
    using assms(1) broker_run_keys_valid [of url_Parse reqs "Subdomain req"] by simp
  then show ?thesis using assms by (simp add: handleRegister_def)
qed

theorem register_conflict_witness:
  "broker_run localhost_Parse [] ''test'' = Some (Some \<lparr>Scheme = ''http'', Host = ''localhost:80''\<rparr>)
   \<and> handleRegister localhost_Parse (broker_run localhost_Parse [])
        (Some \<lparr>Subdomain = ''test'', TargetPort = ''8080'', APIKey = ''test123''\<rparr>) =
        ([HttpError ''Subdomain already registered'' 409], broker_run localhost_Parse [])"
proof -
  have h: "broker_run localhost_Parse []
             (Subdomain \<lparr>Subdomain = ''test'', TargetPort = ''8080'', APIKey = ''test123''\<rparr>)
           = Some (Some \<lparr>Scheme = ''http'', Host = ''localhost:80''\<rparr>)"
    by (simp add: broker_run_Nil main_tunnels_def localhost_Parse_80)
  from register_conflict [of localhost_Parse "[]"
      "\<lparr>Subdomain = ''test'', TargetPort = ''8080'', APIKey = ''test123''\<rparr>"
      "Some \<lparr>Scheme = ''http'', Host = ''localhost:80''\<rparr>"] h
  show ?thesis by simp
qed

subsection \<open>The handshake\<close>

text \<open>
  Claim C4, at the input where it fails. With the right credential and a subdomain that
  has no registry entry, \<open>handleTunnel\<close> performs the upgrade first and looks the
  subdomain up afterwards: the client receives 101, and the 404 that the handler then
  writes goes to a response writer that no longer owns the connection.
\<close>

theorem handleTunnel_upgrade_precedes_lookup:
  "tunnels subdomain = None \<Longrightarrow>
   handleTunnel tunnels ''test123'' subdomain None dial =
     [Upgrade None, HttpError ''Tunnel not registered'' 404, CloseWs]
   \<and> reply (handleTunnel tunnels ''test123'' subdomain None dial) = Some 101"
  by (simp add: handleTunnel_def)

theorem handleTunnel_upgrade_precedes_lookup_witness:
  "main_tunnels localhost_Parse ''ghost'' = None \<and>
   handleTunnel (main_tunnels localhost_Parse) ''test123'' ''ghost'' None True =
     [Upgrade None, HttpError ''Tunnel not registered'' 404, CloseWs]
   \<and> reply (handleTunnel (main_tunnels localhost_Parse) ''test123'' ''ghost'' None True) = Some 101"
proof -
  have h: "main_tunnels localhost_Parse ''ghost'' = None" by (simp add: main_tunnels_def)
  from handleTunnel_upgrade_precedes_lookup [of "main_tunnels localhost_Parse" "''ghost''" True] h
  show ?thesis by simp
qed

text \<open>
  Claim C5, as amended. For every accepted handshake (right credential, upgrade
  performed, subdomain bound to a parsed target) the broker dials the host of the
  registered target itself, right after the upgrade, and starts the relay only when that
  dial has succeeded; a public request whose first host label is the subdomain is served
  by a reverse proxy aimed at the same target.
\<close>

theorem handleTunnel_dials_target:
  assumes "tunnels subdomain = Some (Some target)"
  shows "handleTunnel tunnels ''test123'' subdomain None dial =
           Upgrade None # Dial (Host target) dial #
             (if dial then [Relay, CloseLocal, CloseWs]
              else [HttpError ''Target service unavailable'' 502, CloseWs])
         \<and> (CHR ''.'' \<notin> set subdomain \<longrightarrow>
              handleHTTP tunnels (subdomain @ ''.'' @ domain) = [ServeProxy target])"
  using assms by (simp add: handleTunnel_def handleHTTP_key takeWhile_label)

text \<open>
  The claim as stated fails on the start-up registry: the handshake for \<open>test\<close> opens a
  TCP connection to \<open>localhost:80\<close>, the host of the registered target.
\<close>

theorem handleTunnel_dials_target_counterexample:
  "Dial ''localhost:80'' True \<in>
     set (handleTunnel (main_tunnels localhost_Parse) ''test123'' ''test'' None True)"
  by (simp add: handleTunnel_def main_tunnels_def localhost_Parse_80)

theorem handleTunnel_dials_target_witness:
  "main_tunnels localhost_Parse ''test'' = Some (Some \<lparr>Scheme = ''http'', Host = ''localhost:80''\<rparr>)
   \<and> handleTunnel (main_tunnels localhost_Parse) ''test123'' ''test'' None False =
       [Upgrade None, Dial ''localhost:80'' False,
        HttpError ''Target service unavailable'' 502, CloseWs]
   \<and> handleHTTP (main_tunnels localhost_Parse) ''test.exposelocal.dev'' =
       [ServeProxy \<lparr>Scheme = ''http'', Host = ''localhost:80''\<rparr>]"
proof -
  have h: "main_tunnels localhost_Parse ''test'' =
             Some (Some \<lparr>Scheme = ''http'', Host = ''localhost:80''\<rparr>)"
    by (simp add: main_tunnels_def localhost_Parse_80)
  from handleTunnel_dials_target [of "main_tunnels localhost_Parse" "''test''"
      "\<lparr>Scheme = ''http'', Host = ''localhost:80''\<rparr>" False "''exposelocal.dev''"] h
  show ?thesis by simp
qed

subsection \<open>Entries of the registry\<close>

text \<open>
  Claim C6, as amended. In every state the broker can reach, a subdomain that has an
  entry keeps exactly that entry through every later request (no second entry is ever
  made for it), and every entry bound to a parsed target is either the default entry
  \<open>test\<close> that \<open>main\<close> installs at start-up or was created by a registration exchange of
  the run that succeeded: a \<open>POST /register\<close> for that subdomain, absent until then,
  answered with 201 and the registration reply.
\<close>

theorem registry_entries:
  assumes "broker_run url_Parse reqs s = Some t"
  shows "(\<forall>later. broker_run url_Parse (reqs @ later) s = Some t)
         \<and> (case t of
               None \<Rightarrow> True
             | Some u \<Rightarrow>
                 s = ''test'' \<and> Some u = url_Parse ''http://localhost:80'' \<or>
                 created_in_run url_Parse reqs s u)"
proof (cases t)
  case None
  then show ?thesis using assms broker_run_append_keeps [of url_Parse reqs s t] by simp
next
  case (Some u)
  then show ?thesis
    using assms broker_run_append_keeps [of url_Parse reqs s t] broker_run_created [of url_Parse reqs s u]
    by simp
qed

text \<open>
  The claim as stated fails in the initial state: before any request has been served,
  \<open>test\<close> has an entry, and no registration exchange has created it.
\<close>

theorem registry_entries_counterexample:
  "broker_run localhost_Parse [] ''test'' = Some (Some \<lparr>Scheme = ''http'', Host = ''localhost:80''\<rparr>)
   \<and> \<not> created_in_run localhost_Parse [] ''test'' \<lparr>Scheme = ''http'', Host = ''localhost:80''\<rparr>"
  by (simp add: broker_run_Nil main_tunnels_def localhost_Parse_80 created_in_run_def)

theorem registry_entries_witness:
  "broker_run localhost_Parse
     [PostRegister (Some \<lparr>Subdomain = ''demo'', TargetPort = ''3000'', APIKey = ''test123''\<rparr>)]
     ''demo'' = Some (Some \<lparr>Scheme = ''http'', Host = ''localhost:3000''\<rparr>)
   \<and> created_in_run localhost_Parse
       [PostRegister (Some \<lparr>Subdomain = ''demo'', TargetPort = ''3000'', APIKey = ''test123''\<rparr>)]
       ''demo'' \<lparr>Scheme = ''http'', Host = ''localhost:3000''\<rparr>"
proof -
  have h: "broker_run localhost_Parse
     [PostRegister (Some \<lparr>Subdomain = ''demo'', TargetPort = ''3000'', APIKey = ''test123''\<rparr>)]
     ''demo'' = Some (Some \<lparr>Scheme = ''http'', Host = ''localhost:3000''\<rparr>)"
    using demo_valid localhost_Parse_3000
    by (simp add: broker_run_def main_tunnels_def handleRegister_def)
  from registry_entries [of localhost_Parse
      "[PostRegister (Some \<lparr>Subdomain = ''demo'', TargetPort = ''3000'', APIKey = ''test123''\<rparr>)]"
      "''demo''" "Some \<lparr>Scheme = ''http'', Host = ''localhost:3000''\<rparr>"] h
  show ?thesis by simp
qed

subsection \<open>The dispatcher\<close>

text \<open>
  Claim C10. The dispatcher looks up the part of the Host value before its first dot and
  answers 404 exactly when that key has no entry. A Host without a dot is the key as a
  whole, port suffix included; such a Host with a colon has no entry in any state the
  broker can reach, so it is answered with 404. The empty Host gives the empty key.
\<close>

theorem handleHTTP_routing_key:
  "handleHTTP tunnels r_Host =
     (case tunnels (takeWhile (\<lambda>c. c \<noteq> CHR ''.'') r_Host) of
        None \<Rightarrow> [HttpError ''Tunnel not found'' 404]
      | Some None \<Rightarrow> [Panic NilPointer]
      | Some (Some target) \<Rightarrow> [ServeProxy target])
   \<and> (CHR ''.'' \<notin> set r_Host \<longrightarrow> takeWhile (\<lambda>c. c \<noteq> CHR ''.'') r_Host = r_Host)
   \<and> (CHR ''.'' \<notin> set r_Host \<and> CHR '':'' \<in> set r_Host \<longrightarrow>
        handleHTTP (broker_run url_Parse reqs) r_Host = [HttpError ''Tunnel not found'' 404])
   \<and> takeWhile (\<lambda>c. c \<noteq> CHR ''.'') '''' = ''''"
proof -
  have a: "takeWhile (\<lambda>c. c \<noteq> CHR ''.'') r_Host = r_Host" if "CHR ''.'' \<notin> set r_Host"
    using that by (induction r_Host) auto
  have b: "handleHTTP (broker_run url_Parse reqs) r_Host = [HttpError ''Tunnel not found'' 404]"
    if "CHR ''.'' \<notin> set r_Host" "CHR '':'' \<in> set r_Host"
  proof -
    have "\<not> isValidSubdomain r_Host" using that(2) by (rule colon_invalid)
    then have "broker_run url_Parse reqs r_Host = None"
      using broker_run_keys_valid [of url_Parse reqs r_Host] by blast
    then have "broker_run url_Parse reqs (takeWhile (\<lambda>c. c \<noteq> CHR ''.'') r_Host) = None"
      by (simp only: a [OF that(1)])
    then show ?thesis by (simp only: handleHTTP_key option.case)
  qed
  from a b handleHTTP_key [of tunnels r_Host] show ?thesis by simp
qed

theorem handleHTTP_routing_key_witness:
  "CHR ''.'' \<notin> set ''localhost:8080'' \<and> CHR '':'' \<in> set ''localhost:8080'' \<and>
   handleHTTP (broker_run localhost_Parse
     [PostRegister (Some \<lparr>Subdomain = ''demo'', TargetPort = ''3000'', APIKey = ''test123''\<rparr>)])
     ''localhost:8080'' = [HttpError ''Tunnel not found'' 404]"
  using handleHTTP_routing_key [of Map.empty "''localhost:8080''" localhost_Parse
     "[PostRegister (Some \<lparr>Subdomain = ''demo'', TargetPort = ''3000'', APIKey = ''test123''\<rparr>)]"]
  by simp

section \<open>Properties of the relay\<close>

lemma Read_chunk:
  "Read 1024 (seg # rest) = (Some chunk, rest') \<Longrightarrow>
     length chunk \<le> 1024 \<and> chunk @ concat rest' = seg @ concat rest"
  by (auto split: if_splits)

lemma handleTunnel_local_to_ws_copy:
  "snd conn = \<infinity> \<Longrightarrow>
   \<exists>chunks. handleTunnel_local_to_ws localConn conn =
              (LocalReadError, [], (fst conn @ chunks, \<infinity>))
            \<and> concat chunks = concat localConn \<and> (\<forall>c \<in> set chunks. length c \<le> 1024)"
proof (induction localConn conn rule: handleTunnel_local_to_ws.induct)
  case (1 localConn conn)
  obtain out where conn: "conn = (out, \<infinity>)" using "1.prems" by (cases conn) simp
  show ?case
  proof (cases localConn)
    case Nil
    then show ?thesis using conn by (subst handleTunnel_local_to_ws.simps) simp
  next
    case (Cons seg rest)
    obtain chunk rest' where r: "Read 1024 localConn = (Some chunk, rest')"
      using Cons by (cases "length seg \<le> 1024") auto
    from Read_chunk [of seg rest chunk rest'] r Cons
    have c: "length chunk \<le> 1024" "chunk @ concat rest' = concat localConn" by auto
    have p: "put chunk conn = Some (out @ [chunk], \<infinity>)" using conn by simp
    have "\<exists>chunks. handleTunnel_local_to_ws rest' (out @ [chunk], \<infinity>) =
              (LocalReadError, [], (fst (out @ [chunk], \<infinity>::enat) @ chunks, \<infinity>))
            \<and> concat chunks = concat rest' \<and> (\<forall>c \<in> set chunks. length c \<le> 1024)"
      by (rule "1.IH" [OF r [symmetric] refl p]) simp
    then obtain chunks where ih:
      "handleTunnel_local_to_ws rest' (out @ [chunk], \<infinity>) =
         (LocalReadError, [], ((out @ [chunk]) @ chunks, \<infinity>))"
      "concat chunks = concat rest'" "\<forall>c \<in> set chunks. length c \<le> 1024"
      by auto
    have "handleTunnel_local_to_ws localConn conn =
            (LocalReadError, [], (fst conn @ (chunk # chunks), \<infinity>))"
      using r p ih(1) conn by (subst handleTunnel_local_to_ws.simps) simp
    moreover have "concat (chunk # chunks) = concat localConn" using c(2) ih(2) by simp
    moreover have "\<forall>c \<in> set (chunk # chunks). length c \<le> 1024" using c(1) ih(3) by simp
    ultimately show ?thesis by blast
  qed
qed

lemma forwardTraffic_local_to_ws_copy:
  "snd wsConn = \<infinity> \<Longrightarrow>
   \<exists>chunks. forwardTraffic_local_to_ws \<infinity> localConn wsConn =
              (LocalReadError, [], (fst wsConn @ chunks, \<infinity>))
            \<and> concat chunks = concat localConn \<and> (\<forall>c \<in> set chunks. length c \<le> 1024)"
proof (induction "\<infinity>::enat" localConn wsConn rule: forwardTraffic_local_to_ws.induct)
  case (1 localConn wsConn)
  obtain out where conn: "wsConn = (out, \<infinity>)" using "1.prems" by (cases wsConn) simp
  show ?case
  proof (cases localConn)
    case Nil
    then show ?thesis using conn by (subst forwardTraffic_local_to_ws.simps) simp
  next
    case (Cons seg rest)
    obtain chunk rest' where r: "Read 1024 localConn = (Some chunk, rest')"
      using Cons by (cases "length seg \<le> 1024") auto
    from Read_chunk [of seg rest chunk rest'] r Cons
    have c: "length chunk \<le> 1024" "chunk @ concat rest' = concat localConn" by auto
    have p: "put chunk wsConn = Some (out @ [chunk], \<infinity>)" using conn by simp
    have "\<exists>chunks. forwardTraffic_local_to_ws \<infinity> rest' (out @ [chunk], \<infinity>) =
              (LocalReadError, [], (fst (out @ [chunk], \<infinity>::enat) @ chunks, \<infinity>))
            \<and> concat chunks = concat rest' \<and> (\<forall>c \<in> set chunks. length c \<le> 1024)"
      using "1.hyps" [OF _ r [symmetric] refl p] by simp
    then obtain chunks where ih:
      "forwardTraffic_local_to_ws \<infinity> rest' (out @ [chunk], \<infinity>) =
         (LocalReadError, [], ((out @ [chunk]) @ chunks, \<infinity>))"
      "concat chunks = concat rest'" "\<forall>c \<in> set chunks. length c \<le> 1024"
      by auto
    have "forwardTraffic_local_to_ws \<infinity> localConn wsConn =
            (LocalReadError, [], (fst wsConn @ (chunk # chunks), \<infinity>))"
      using r p ih(1) conn by (subst forwardTraffic_local_to_ws.simps) simp
    moreover have "concat (chunk # chunks) = concat localConn" using c(2) ih(2) by simp
    moreover have "\<forall>c \<in> set (chunk # chunks). length c \<le> 1024" using c(1) ih(3) by simp
    ultimately show ?thesis by blast
  qed
qed

lemma handleTunnel_ws_to_local_copy:
  "handleTunnel_ws_to_local conn (out, \<infinity>) = (WsReadError, [], (out @ conn, \<infinity>))"
  by (induction conn arbitrary: out) simp_all

lemma forwardTraffic_ws_to_local_copy:
  "forwardTraffic_ws_to_local \<infinity> wsConn (out, \<infinity>) = (WsReadError, [], (out @ wsConn, \<infinity>))"
  by (induction wsConn arbitrary: out) simp_all

text \<open>
  A payload of 3000 bytes that arrives in one piece leaves the broker as messages of
  1024, 1024 and 952 bytes.
\<close>

lemma handleTunnel_local_to_ws_3000:
  "handleTunnel_local_to_ws [replicate 3000 x] ([], \<infinity>) =
     (LocalReadError, [], ([replicate 1024 x, replicate 1024 x, replicate 952 x], \<infinity>))"
  by (simp add: numeral_eq_enat one_enat_def)

text \<open>A message of 1500 bytes arriving on the channel is written whole.\<close>

lemma handleTunnel_ws_to_local_1500:
  "handleTunnel_ws_to_local [replicate 1500 x] ([], \<infinity>) =
     (WsReadError, [], ([replicate 1500 x], \<infinity>))"
  by (simp add: handleTunnel_ws_to_local_copy)

text \<open>
  Claim C3. With no write failing and no cancellation, each of the four copy loops
  delivers exactly what it receives, unmodified and in order, whatever the length:
  \<^item> a loop from a local connection to the channel (broker and agent) sends the bytes of
    its input, which the reads find in arbitrary pieces \<open>segments\<close>, as messages of at
    most 1024 bytes whose concatenation is \<open>concat segments\<close>, after whatever was sent
    before, and ends when the input is exhausted;
  \<^item> a loop from the channel to a local connection (broker and agent) writes every
    message that arrives, of any size, whole and in order, after whatever was written
    before, and ends when \<open>ReadMessage\<close> fails.
  Hence, end to end in either direction: provided that the messages arriving at the
  reading side are exactly the messages the sending side has sent, the bytes written to
  the far local connection are the bytes read from the near one.
\<close>

theorem relay_round_trip:
  "(\<exists>msgs. handleTunnel_local_to_ws segments (sent, \<infinity>)
             = (LocalReadError, [], (sent @ msgs, \<infinity>))
           \<and> list_all (\<lambda>m. length m \<le> 1024) msgs \<and> concat msgs = concat segments)
   \<and> (\<exists>msgs. forwardTraffic_local_to_ws \<infinity> segments (sent, \<infinity>)
             = (LocalReadError, [], (sent @ msgs, \<infinity>))
           \<and> list_all (\<lambda>m. length m \<le> 1024) msgs \<and> concat msgs = concat segments)
   \<and> handleTunnel_ws_to_local arrived (written, \<infinity>)
       = (WsReadError, [], (written @ arrived, \<infinity>))
   \<and> forwardTraffic_ws_to_local \<infinity> arrived (written, \<infinity>)
       = (WsReadError, [], (written @ arrived, \<infinity>))
   \<and> (arrived = fst (snd (snd (handleTunnel_local_to_ws segments ([], \<infinity>)))) \<longrightarrow>
        concat (fst (snd (snd (forwardTraffic_ws_to_local \<infinity> arrived ([], \<infinity>)))))
          = concat segments)
   \<and> (arrived = fst (snd (snd (forwardTraffic_local_to_ws \<infinity> segments ([], \<infinity>)))) \<longrightarrow>
        concat (fst (snd (snd (handleTunnel_ws_to_local arrived ([], \<infinity>)))))
          = concat segments)"
proof -
  from handleTunnel_local_to_ws_copy [of "(sent, \<infinity>)" segments]
  have a: "\<exists>msgs. handleTunnel_local_to_ws segments (sent, \<infinity>)
             = (LocalReadError, [], (sent @ msgs, \<infinity>))
           \<and> list_all (\<lambda>m. length m \<le> 1024) msgs \<and> concat msgs = concat segments"
    unfolding list_all_iff by auto
  from forwardTraffic_local_to_ws_copy [of "(sent, \<infinity>)" segments]
  have b: "\<exists>msgs. forwardTraffic_local_to_ws \<infinity> segments (sent, \<infinity>)
             = (LocalReadError, [], (sent @ msgs, \<infinity>))
           \<and> list_all (\<lambda>m. length m \<le> 1024) msgs \<and> concat msgs = concat segments"
    unfolding list_all_iff by auto
  from handleTunnel_local_to_ws_copy [of "([], \<infinity>)" segments]
  obtain ms where ms:
    "handleTunnel_local_to_ws segments ([], \<infinity>) = (LocalReadError, [], (ms, \<infinity>))"
    "concat ms = concat segments"
    by auto
  have c: "concat (fst (snd (snd (forwardTraffic_ws_to_local \<infinity> arrived ([], \<infinity>)))))
             = concat segments"
    if "arrived = fst (snd (snd (handleTunnel_local_to_ws segments ([], \<infinity>))))"
    using that ms by (simp add: forwardTraffic_ws_to_local_copy)
  from forwardTraffic_local_to_ws_copy [of "([], \<infinity>)" segments]
  obtain ns where ns:
    "forwardTraffic_local_to_ws \<infinity> segments ([], \<infinity>) = (LocalReadError, [], (ns, \<infinity>))"
    "concat ns = concat segments"
    by auto
  have d: "concat (fst (snd (snd (handleTunnel_ws_to_local arrived ([], \<infinity>)))))
             = concat segments"
    if "arrived = fst (snd (snd (forwardTraffic_local_to_ws \<infinity> segments ([], \<infinity>))))"
    using that ns by (simp add: handleTunnel_ws_to_local_copy)
  from a b c d handleTunnel_ws_to_local_copy [of arrived written]
    forwardTraffic_ws_to_local_copy [of arrived written]
  show ?thesis by blast
qed

theorem relay_round_trip_witness:
  "handleTunnel_local_to_ws [''HTTP/1.1 200 OK'', ''hello''] ([], \<infinity>)
     = (LocalReadError, [], ([''HTTP/1.1 200 OK'', ''hello''], \<infinity>))
   \<and> [''HTTP/1.1 200 OK'', ''hello'']
       = fst (snd (snd (handleTunnel_local_to_ws [''HTTP/1.1 200 OK'', ''hello''] ([], \<infinity>))))
   \<and> forwardTraffic_ws_to_local \<infinity> [''HTTP/1.1 200 OK'', ''hello''] ([], \<infinity>)
       = (WsReadError, [], ([''HTTP/1.1 200 OK'', ''hello''], \<infinity>))
   \<and> concat (fst (snd (snd (forwardTraffic_ws_to_local \<infinity>
                [''HTTP/1.1 200 OK'', ''hello''] ([], \<infinity>)))))
       = concat [''HTTP/1.1 200 OK'', ''hello'']"
  using relay_round_trip [of "[''HTTP/1.1 200 OK'', ''hello'']" "[]"
      "[''HTTP/1.1 200 OK'', ''hello'']" "[]"]
  by (simp add: numeral_eq_enat one_enat_def)

section \<open>Properties of the agent\<close>

lemma wrap64_id: "- (2 ^ 63) \<le> x \<Longrightarrow> x < 2 ^ 63 \<Longrightarrow> wrap64 x = x"
  by (simp add: wrap64_def)

lemma increaseDelay_capped:
  assumes "0 \<le> d" "d \<le> 60 * Second"
  shows "increaseDelay d (60 * Second) = min (2 * d) (60 * Second)"
proof -
  have "wrap64 (d * 2) = d * 2"
    using assms by (intro wrap64_id) (simp_all add: Second_def)
  then show ?thesis by (simp add: increaseDelay_def min_def)
qed

lemma agent_run_snoc:
  "agent_run f s (es @ [e]) = agent_step f (agent_run f s es) e"
  by (simp add: agent_run_def)

lemma replicate_snoc: "replicate (Suc k) x = replicate k x @ [x]"
  by (simp add: replicate_append_same)

lemma min_pow_step: "min (2 * min (2 ^ Suc k) 60) (60::int) = min (2 ^ Suc (Suc k)) 60"
  by (simp add: min_def)

lemma connecting_failures:
  "agent_run f (Connecting sub (2 * Second)) (replicate k DialFails) =
     Connecting sub (min (2 ^ Suc k) 60 * Second)"
proof (induction k)
  case 0
  show ?case by (simp add: agent_run_def)
next
  case (Suc k)
  let ?m = "min (2 ^ Suc k) (60::int)"
  have r: "0 \<le> ?m * Second" "?m * Second \<le> 60 * Second"
    by (simp_all add: Second_def)
  have "increaseDelay (?m * Second) (60 * Second) = min (2 * (?m * Second)) (60 * Second)"
    using r by (rule increaseDelay_capped)
  also have "\<dots> = min (2 * ?m) 60 * Second"
    by (simp add: Second_def min_def)
  also have "\<dots> = min (2 ^ Suc (Suc k)) 60 * Second"
    by (simp only: min_pow_step)
  finally have "increaseDelay (?m * Second) (60 * Second) = min (2 ^ Suc (Suc k)) 60 * Second" .
  then show ?case
    by (simp only: replicate_snoc agent_run_snoc Suc.IH agent_step.simps)
qed

text \<open>
  Claim C7. The connect phase is entered with a delay of 2 seconds. After \<open>k\<close>
  consecutive failed connects the delay is \<open>min (2 ^ (k + 1)) 60\<close> seconds: each failure
  doubles it, capped at 60 seconds, so it never decreases from one failure to the next
  and never exceeds 60 seconds however many failures there are. A successful connect
  sets it back to 2 seconds.
\<close>

theorem backoff_delay:
  "retryDelay_of (agent_step f (Registering sub) (PostReplies 201 n)) = 2 * Second
   \<and> agent_run f (Connecting sub (2 * Second)) (replicate k DialFails)
       = Connecting sub (min (2 ^ Suc k) 60 * Second)
   \<and> retryDelay_of (agent_run f (Connecting sub (2 * Second)) (replicate (Suc k) DialFails))
       = min (2 * retryDelay_of (agent_run f (Connecting sub (2 * Second)) (replicate k DialFails)))
             (60 * Second)
   \<and> retryDelay_of (agent_run f (Connecting sub (2 * Second)) (replicate k DialFails))
       \<le> retryDelay_of (agent_run f (Connecting sub (2 * Second)) (replicate (Suc k) DialFails))
   \<and> retryDelay_of (agent_run f (Connecting sub (2 * Second)) (replicate k DialFails))
       \<le> 60 * Second
   \<and> agent_step f (agent_run f (Connecting sub (2 * Second)) (replicate k DialFails)) DialSucceeds
       = Active sub (2 * Second) False"
proof -
  let ?d = "\<lambda>k. retryDelay_of (agent_run f (Connecting sub (2 * Second)) (replicate k DialFails))"
  have d: "?d k = min (2 ^ Suc k) 60 * Second" for k
    by (simp only: connecting_failures retryDelay_of.simps)
  have a: "retryDelay_of (agent_step f (Registering sub) (PostReplies 201 n)) = 2 * Second"
    by simp
  have b: "?d (Suc k) = min (2 * ?d k) (60 * Second)"
    unfolding d by (simp add: Second_def min_def)
  have c: "?d k \<le> ?d (Suc k)"
    unfolding d by (simp add: Second_def min_def)
  have e: "?d k \<le> 60 * Second"
    unfolding d by (simp add: Second_def)
  have g: "agent_step f (agent_run f (Connecting sub (2 * Second)) (replicate k DialFails)) DialSucceeds
       = Active sub (2 * Second) False"
    by (simp only: connecting_failures agent_step.simps)
  from a b c e g connecting_failures [of f sub k] show ?thesis by blast
qed

theorem backoff_delay_witness:
  "agent_run ''test'' (Connecting ''test'' (2 * Second)) (replicate 4 DialFails)
     = Connecting ''test'' (32 * Second)
   \<and> agent_run ''test'' (Connecting ''test'' (2 * Second)) (replicate 5 DialFails)
     = Connecting ''test'' (60 * Second)
   \<and> agent_run ''test'' (Connecting ''test'' (2 * Second)) (replicate 9 DialFails)
     = Connecting ''test'' (60 * Second)"
  using backoff_delay [of "''test''" "''test''" 0 4] backoff_delay [of "''test''" "''test''" 0 5]
    backoff_delay [of "''test''" "''test''" 0 9]
  by simp

text \<open>
  Claim C8, as amended. A step of the agent ends the process through \<open>log.Fatal\<close> in
  exactly three situations: the registration request is answered with a status other
  than 201 and 409, the registration body cannot be encoded, or the local listener
  cannot be bound. Every other error (an unreachable broker during registration, a
  conflict, a failed connect, a failed accept, a relay I/O error) is retried or logged
  and leaves the process running.
\<close>

theorem agent_exit_causes:
  "agent_step f s e = Exited \<longleftrightarrow>
     s = Exited
     \<or> (\<exists>sub. s = Registering sub \<and>
           (e = MarshalFails \<or> (\<exists>c n. e = PostReplies c n \<and> c \<noteq> 201 \<and> c \<noteq> 409)))
     \<or> (\<exists>sub d. s = Active sub d False \<and> e = ListenFails)"
proof (cases s)
  case (Registering sub)
  then show ?thesis by (cases e) auto
next
  case (Connecting sub d)
  then show ?thesis by (cases e) auto
next
  case (Active sub d l)
  then show ?thesis by (cases e; cases l) auto
next
  case Exited
  then show ?thesis by simp
next
  case Killed
  then show ?thesis by (cases e) auto
next
  case Returned
  then show ?thesis by (cases e) auto
qed

text \<open>
  The claim as stated fails when the broker rejects the registration: a reply with
  status 401 ends the agent process, and this is not a failure to bind the listener.
\<close>

theorem agent_exit_causes_counterexample:
  "agent_step ''test'' (Registering ''test'') (PostReplies 401 0) = Exited
   \<and> PostReplies 401 0 \<noteq> ListenFails"
  by simp

theorem agent_exit_causes_witness:
  "agent_step ''test'' (Active ''test'' (2 * Second) False) ListenFails = Exited
   \<and> agent_step ''test'' (Connecting ''test'' (2 * Second)) DialFails \<noteq> Exited"
  using agent_exit_causes [of "''test''" "Active ''test'' (2 * Second) False" ListenFails]
    agent_exit_causes [of "''test''" "Connecting ''test'' (2 * Second)" DialFails]
  by simp

end
